theory Spec2Isabelle
  imports Main "HOL-Library.AList"
begin

section \<open>pyxavi.dictionary: a path-addressable tree of dicts and lists\<close>

text \<open>
  The class \<^verbatim>\<open>Dictionary\<close> of \<^verbatim>\<open>src/pyxavi/dictionary.py\<close> wraps a Python value
  (\<^verbatim>\<open>_content\<close>) and a separator (\<^verbatim>\<open>_separator\<close>) and addresses nested values by
  paths such as \<^verbatim>\<open>"root.child.2.name"\<close>.

  Modelling decisions:
  \<^item> Python values are the datatype \<open>node\<close>: \<^verbatim>\<open>None\<close>, booleans, integers, strings,
    lists and dicts with string keys (a float is one more scalar to this class, and
    tuples and sets only occur in \<^verbatim>\<open>get_keys_in\<close>; they are left out). A dict is an
    association list in insertion order; lookups read the first entry of a key and
    \<open>AList.update\<close> overwrites it in place or appends a new key at the end, as a
    Python dict does.
  \<^item> Strings are \<open>char list\<close>, a character being a code point below 256; among those
    \<^verbatim>\<open>str.isdecimal\<close> accepts exactly \<^verbatim>\<open>0\<close> to \<^verbatim>\<open>9\<close>.
  \<^item> The separator is one character (the constructor's parameter is called
    \<^verbatim>\<open>path_separator_char\<close>).
  \<^item> Every exception is a value: a read returns \<open>py_error + 'a\<close>, and a method that
    mutates returns its outcome together with the object as it is when the method
    exits, by \<^verbatim>\<open>return\<close> or by \<^verbatim>\<open>raise\<close>.
  \<^item> The content is a tree: no node is reachable along two paths. A mutation of a
    nested object through a reference is then a rewrite of the tree at the position
    the reference was read from.
\<close>

subsection \<open>Values and exceptions\<close>

datatype node =
    PNone
  | PBool bool
  | PInt int
  | PStr string
  | PList "node list"
  | PDict "(string \<times> node) list"

datatype py_error = IndexError | KeyError | TypeError | ValueError | RuntimeError

record dictionary =
  content :: node
  separator :: char

subsection \<open>The string methods the class calls\<close>

text \<open>\<^verbatim>\<open>s.find(sep)\<close>: the index of the first occurrence, \<open>-1\<close> when there is none.\<close>

fun find_str :: "char \<Rightarrow> string \<Rightarrow> int" where
  "find_str sep [] = - 1"
| "find_str sep (c # cs) =
     (if c = sep then 0
      else (let r = find_str sep cs in if r < 0 then - 1 else r + 1))"

text \<open>\<^verbatim>\<open>s.split(sep)\<close>: never empty; \<^verbatim>\<open>"".split(".")\<close> is \<^verbatim>\<open>[""]\<close>.\<close>

fun split_str :: "char \<Rightarrow> string \<Rightarrow> string list" where
  "split_str sep [] = [[]]"
| "split_str sep (c # cs) =
     (let r = split_str sep cs in
      if c = sep then [] # r else (c # hd r) # tl r)"

text \<open>\<^verbatim>\<open>sep.join(pieces)\<close>.\<close>

fun join_str :: "char \<Rightarrow> string list \<Rightarrow> string" where
  "join_str sep [] = []"
| "join_str sep [p] = p"
| "join_str sep (p # q # ps) = p @ sep # join_str sep (q # ps)"

definition is_digit :: "char \<Rightarrow> bool" where
  "is_digit c = (c \<in> set ''0123456789'')"

text \<open>\<^verbatim>\<open>s.isdecimal()\<close>: false on the empty string.\<close>

definition isdecimal :: "string \<Rightarrow> bool" where
  "isdecimal s = (s \<noteq> [] \<and> list_all is_digit s)"

text \<open>The value of a digit is its position in \<^verbatim>\<open>0123456789\<close>.\<close>

definition digit_val :: "char \<Rightarrow> int" where
  "digit_val c = int (length (takeWhile (\<lambda>d. d \<noteq> c) ''0123456789''))"

definition digits_val :: "string \<Rightarrow> int" where
  "digits_val s = foldl (\<lambda>acc c. acc * 10 + digit_val c) 0 s"

text \<open>\<^verbatim>\<open>int(s)\<close>, only ever called on a string that \<^verbatim>\<open>_is_int\<close> accepted.\<close>

definition py_int :: "string \<Rightarrow> int" where
  "py_int s =
     (case s of
        [] \<Rightarrow> 0
      | c # cs \<Rightarrow>
          if c = CHR ''-'' then - digits_val cs
          else if c = CHR ''+'' then digits_val cs
          else digits_val s)"

text \<open>
  \<^verbatim>\<open>_is_int\<close> reads \<^verbatim>\<open>element[0]\<close> first: on the empty string that is an
  \<^verbatim>\<open>IndexError\<close>.
\<close>

definition is_int :: "string \<Rightarrow> py_error + bool" where
  "is_int element =
     (case element of
        [] \<Rightarrow> Inl IndexError
      | c # cs \<Rightarrow>
          if c = CHR ''-'' \<or> c = CHR ''+'' then Inr (isdecimal cs)
          else Inr (isdecimal element))"

subsection \<open>The operators on values\<close>

text \<open>Truth value of an object, as \<^verbatim>\<open>if self._content and ...\<close> tests it.\<close>

fun truthy :: "node \<Rightarrow> bool" where
  "truthy PNone = False"
| "truthy (PBool b) = b"
| "truthy (PInt i) = (i \<noteq> 0)"
| "truthy (PStr s) = (s \<noteq> [])"
| "truthy (PList xs) = (xs \<noteq> [])"
| "truthy (PDict kvs) = (kvs \<noteq> [])"

fun is_substr :: "string \<Rightarrow> string \<Rightarrow> bool" where
  "is_substr p [] = (p = [])"
| "is_substr p (c # cs) = (take (length p) (c # cs) = p \<or> is_substr p cs)"

text \<open>
  \<^verbatim>\<open>item in obj\<close> for a string \<^verbatim>\<open>item\<close>: a key test on a dict, a membership test on a
  list, a substring test on a string, a \<^verbatim>\<open>TypeError\<close> on anything else.
\<close>

fun py_in :: "string \<Rightarrow> node \<Rightarrow> py_error + bool" where
  "py_in item (PDict kvs) = Inr (map_of kvs item \<noteq> None)"
| "py_in item (PList xs) = Inr (PStr item \<in> set xs)"
| "py_in item (PStr s) = Inr (is_substr item s)"
| "py_in item _ = Inl TypeError"

text \<open>\<^verbatim>\<open>obj[item]\<close> for a string \<^verbatim>\<open>item\<close>.\<close>

fun py_getitem :: "node \<Rightarrow> string \<Rightarrow> py_error + node" where
  "py_getitem (PDict kvs) item =
     (case map_of kvs item of None \<Rightarrow> Inl KeyError | Some x \<Rightarrow> Inr x)"
| "py_getitem _ item = Inl TypeError"

text \<open>
  List indexing with an integer: an index \<open>i\<close> is valid when
  \<open>- len \<le> i < len\<close>, a negative one counting from the end.
\<close>

definition in_range :: "node list \<Rightarrow> int \<Rightarrow> bool" where
  "in_range xs i = (- int (length xs) \<le> i \<and> i < int (length xs))"

definition norm_index :: "node list \<Rightarrow> int \<Rightarrow> nat" where
  "norm_index xs i = nat (if i < 0 then int (length xs) + i else i)"

definition list_getitem :: "node list \<Rightarrow> int \<Rightarrow> py_error + node" where
  "list_getitem xs i =
     (if in_range xs i then Inr (xs ! norm_index xs i) else Inl IndexError)"

definition list_setitem :: "node list \<Rightarrow> int \<Rightarrow> node \<Rightarrow> py_error + node list" where
  "list_setitem xs i v =
     (if in_range xs i then Inr (xs[norm_index xs i := v]) else Inl IndexError)"

definition list_delitem :: "node list \<Rightarrow> int \<Rightarrow> py_error + node list" where
  "list_delitem xs i =
     (if in_range xs i
      then Inr (take (norm_index xs i) xs @ drop (Suc (norm_index xs i)) xs)
      else Inl IndexError)"

text \<open>\<^verbatim>\<open>_is_out_of_range\<close>: tries \<^verbatim>\<open>list_to_check[index]\<close> and catches the \<^verbatim>\<open>IndexError\<close>.\<close>

definition is_out_of_range :: "int \<Rightarrow> node list \<Rightarrow> bool" where
  "is_out_of_range index list_to_check =
     (case list_getitem list_to_check index of Inl e \<Rightarrow> True | Inr x \<Rightarrow> False)"

subsection \<open>get\<close>

text \<open>
  The loop of \<^verbatim>\<open>get\<close> over the pieces of a split path; \<open>local_content\<close> is the
  node reached so far.
\<close>

fun get_walk :: "node \<Rightarrow> string list \<Rightarrow> node \<Rightarrow> py_error + node" where
  "get_walk local_content [] default_value = Inr local_content"
| "get_walk local_content (item # items) default_value =
     (case is_int item of
        Inl e \<Rightarrow> Inl e
      | Inr True \<Rightarrow>
          (case local_content of
             PList xs \<Rightarrow>
               if py_int item < int (length xs) then
                 (case list_getitem xs (py_int item) of
                    Inl e \<Rightarrow> Inl e
                  | Inr x \<Rightarrow>
                      if x \<noteq> PNone then get_walk x items default_value
                      else Inr default_value)
               else Inr default_value
           | _ \<Rightarrow> Inr default_value)
      | Inr False \<Rightarrow>
          (case py_in item local_content of
             Inl e \<Rightarrow> Inl e
           | Inr False \<Rightarrow> Inr default_value
           | Inr True \<Rightarrow>
               (case py_getitem local_content item of
                  Inl e \<Rightarrow> Inl e
                | Inr x \<Rightarrow>
                    if x \<noteq> PNone then get_walk x items default_value
                    else Inr default_value)))"

definition get :: "dictionary \<Rightarrow> string \<Rightarrow> node \<Rightarrow> py_error + node" where
  "get d param_name default_value =
     (if find_str (separator d) param_name > 0
      then get_walk (content d) (split_str (separator d) param_name) default_value
      else if truthy (content d) then
        (case py_in param_name (content d) of
           Inl e \<Rightarrow> Inl e
         | Inr True \<Rightarrow> py_getitem (content d) param_name
         | Inr False \<Rightarrow> Inr default_value)
      else Inr default_value)"

definition get_all :: "dictionary \<Rightarrow> node" where
  "get_all d = content d"

definition to_dict :: "dictionary \<Rightarrow> node" where
  "to_dict d = get_all d"

subsection \<open>Splitting and joining\<close>

lemma split_str_not_Nil: "split_str sep s \<noteq> []"
  by (induction s) (auto simp: Let_def)

lemma join_str_Cons: "ps \<noteq> [] \<Longrightarrow> join_str sep (p # ps) = p @ sep # join_str sep ps"
  by (cases ps) auto

lemma join_split_str: "join_str sep (split_str sep s) = s"
proof (induction s)
  case Nil
  show ?case by simp
next
  case (Cons c cs)
  obtain p ps where r: "split_str sep cs = p # ps"
    using split_str_not_Nil [of sep cs] by (cases "split_str sep cs") auto
  show ?case
  proof (cases "c = sep")
    case True
    with Cons r show ?thesis by (simp add: join_str_Cons)
  next
    case False
    with Cons r show ?thesis by (cases ps) auto
  qed
qed

lemma find_str_ge: "- 1 \<le> find_str sep s"
  by (induction s) (auto simp: Let_def)

lemma find_str_mem: "0 \<le> find_str sep s \<longleftrightarrow> sep \<in> set s"
  using find_str_ge [of sep] by (induction s) (auto simp: Let_def)

lemma split_str_tl_not_Nil: "sep \<in> set s \<Longrightarrow> tl (split_str sep s) \<noteq> []"
  using split_str_not_Nil [of sep] by (induction s) (auto simp: Let_def)

lemma length_join_tl_split:
  assumes "0 < find_str sep s"
  shows "length (join_str sep (tl (split_str sep s))) < length s"
proof -
  from assms have "sep \<in> set s" using find_str_mem [of sep s] by simp
  then have t: "tl (split_str sep s) \<noteq> []" by (rule split_str_tl_not_Nil)
  obtain p ps where r: "split_str sep s = p # ps"
    using split_str_not_Nil [of sep s] by (cases "split_str sep s") auto
  with t have "join_str sep (split_str sep s) = p @ sep # join_str sep ps"
    by (simp add: join_str_Cons)
  then have "s = p @ sep # join_str sep ps" by (simp add: join_split_str)
  then have "length s = length p + 1 + length (join_str sep ps)" by simp
  with r show ?thesis by simp
qed

subsection \<open>set\<close>

text \<open>
  The loop that fills a list up to an index beyond its end
  (\<^verbatim>\<open>for idx in range(0, param_name + 1)\<close>): an index the list already has is
  skipped, any other appends \<^verbatim>\<open>None\<close>, or the value at the last index.
\<close>

fun fill_loop :: "int list \<Rightarrow> int \<Rightarrow> node \<Rightarrow> node list \<Rightarrow> node list" where
  "fill_loop [] param_name val dictionary = dictionary"
| "fill_loop (idx # idxs) param_name val dictionary =
     (if \<not> is_out_of_range idx dictionary then fill_loop idxs param_name val dictionary
      else fill_loop idxs param_name val
             (dictionary @ [if idx = param_name then val else PNone]))"

text \<open>
  \<^verbatim>\<open>__recursive_set\<close>. The result is the outcome and the object \<open>dictionary\<close> as the
  call leaves it: the object is mutated in place, so the caller's container holds
  the mutated object afterwards. The assignment \<^verbatim>\<open>dictionary = {param_name: value}\<close>
  of the last branch binds a local name only and leaves every object as it was.
\<close>

function recursive_set :: "char \<Rightarrow> string \<Rightarrow> node \<Rightarrow> node \<Rightarrow> (py_error + unit) \<times> node" where
  "recursive_set sep param_name val dictionary =
     (if find_str sep param_name > 0 then
        (let pieces = split_str sep param_name in
         case is_int (hd pieces) of
           Inl e \<Rightarrow> (Inl e, dictionary)
         | Inr True \<Rightarrow>
             (case dictionary of
                PList xs \<Rightarrow>
                  if py_int (hd pieces) < int (length xs) then
                    (case list_getitem xs (py_int (hd pieces)) of
                       Inl e \<Rightarrow> (Inl e, dictionary)
                     | Inr x \<Rightarrow>
                         if x \<noteq> PNone then
                           (case recursive_set sep (join_str sep (tl pieces)) val x of
                              (r, x') \<Rightarrow>
                                (r, PList (xs[norm_index xs (py_int (hd pieces)) := x'])))
                         else (Inl RuntimeError, dictionary))
                  else (Inl RuntimeError, dictionary)
              | _ \<Rightarrow> (Inl ValueError, dictionary))
         | Inr False \<Rightarrow>
             (case dictionary of
                PDict kvs \<Rightarrow>
                  (case map_of kvs (hd pieces) of
                     None \<Rightarrow> (Inl RuntimeError, dictionary)
                   | Some x \<Rightarrow>
                       (case recursive_set sep (join_str sep (tl pieces)) val x of
                          (r, x') \<Rightarrow> (r, PDict (AList.update (hd pieces) x' kvs))))
              | _ \<Rightarrow> (Inl RuntimeError, dictionary)))
      else
        (case is_int param_name of
           Inl e \<Rightarrow> (Inl e, dictionary)
         | Inr True \<Rightarrow>
             (case dictionary of
                PList xs \<Rightarrow>
                  if py_int param_name < int (length xs) then
                    (case list_setitem xs (py_int param_name) val of
                       Inl e \<Rightarrow> (Inl e, dictionary)
                     | Inr xs' \<Rightarrow> (Inr (), PList xs'))
                  else (Inr (), PList (fill_loop [0..py_int param_name] (py_int param_name) val xs))
              | _ \<Rightarrow> (Inl ValueError, dictionary))
         | Inr False \<Rightarrow>
             (case dictionary of
                PNone \<Rightarrow> (Inr (), PNone)
              | PDict kvs \<Rightarrow> (Inr (), PDict (AList.update param_name val kvs))
              | _ \<Rightarrow> (Inl TypeError, dictionary))))"
  by pat_completeness auto
termination
  by (relation "measure (\<lambda>(sep, param_name, val, dictionary). length param_name)")
     (auto simp: length_join_tl_split)

declare recursive_set.simps [simp del]

text \<open>\<^verbatim>\<open>set\<close>: the path may be \<^verbatim>\<open>None\<close>, which is refused before anything else.\<close>

definition set_path :: "dictionary \<Rightarrow> string option \<Rightarrow> node \<Rightarrow> (py_error + unit) \<times> dictionary" where
  "set_path d param_name val =
     (case param_name of
        None \<Rightarrow> (Inl RuntimeError, d)
      | Some p \<Rightarrow>
          (case recursive_set (separator d) p val (content d) of
             (r, c) \<Rightarrow> (r, d\<lparr>content := c\<rparr>)))"

subsection \<open>key\_exists, get\_parent, get\_keys\_in\<close>

definition get_focused_key :: "dictionary \<Rightarrow> string \<Rightarrow> string" where
  "get_focused_key d param_name =
     (if find_str (separator d) param_name > 0
      then last (split_str (separator d) param_name)
      else param_name)"

definition get_parent :: "dictionary \<Rightarrow> string \<Rightarrow> py_error + node" where
  "get_parent d param_name =
     (if find_str (separator d) param_name > 0
      then get d (join_str (separator d) (butlast (split_str (separator d) param_name))) PNone
      else Inr (content d))"

definition key_exists :: "dictionary \<Rightarrow> string \<Rightarrow> py_error + bool" where
  "key_exists d param_name =
     (let key_to_search = get_focused_key d param_name in
      case get_parent d param_name of
        Inl e \<Rightarrow> Inl e
      | Inr parent_object \<Rightarrow>
          (case parent_object of
             PNone \<Rightarrow> Inr False
           | PList xs \<Rightarrow>
               (case is_int key_to_search of
                  Inl e \<Rightarrow> Inl e
                | Inr True \<Rightarrow> Inr (\<not> is_out_of_range (py_int key_to_search) xs)
                | Inr False \<Rightarrow> Inr False)
           | PDict kvs \<Rightarrow> Inr (map_of kvs key_to_search \<noteq> None)
           | _ \<Rightarrow> Inr False))"

text \<open>
  \<^verbatim>\<open>get_keys_in\<close>: the keys of a dict as strings, the positions of a list as
  integers, \<^verbatim>\<open>None\<close> for anything else.
\<close>

definition get_keys_in :: "dictionary \<Rightarrow> string option \<Rightarrow> py_error + node" where
  "get_keys_in d param_name =
     (case (case param_name of Some p \<Rightarrow> get d p PNone | None \<Rightarrow> Inr (content d)) of
        Inl e \<Rightarrow> Inl e
      | Inr obj \<Rightarrow>
          (case obj of
             PDict kvs \<Rightarrow> Inr (PList (map (\<lambda>kv. PStr (fst kv)) kvs))
           | PList xs \<Rightarrow> Inr (PList (map (\<lambda>i. PInt (int i)) [0..<length xs]))
           | _ \<Rightarrow> Inr PNone))"

subsection \<open>delete\<close>

text \<open>
  \<^verbatim>\<open>del parent[key_to_delete]\<close>, the key converted to an integer when the parent is
  a list and the key is an index.
\<close>

definition del_item :: "node \<Rightarrow> string \<Rightarrow> py_error + node" where
  "del_item parent key_to_delete =
     (case parent of
        PList xs \<Rightarrow>
          (case is_int key_to_delete of
             Inl e \<Rightarrow> Inl e
           | Inr True \<Rightarrow>
               (case list_delitem xs (py_int key_to_delete) of
                  Inl e \<Rightarrow> Inl e
                | Inr xs' \<Rightarrow> Inr (PList xs'))
           | Inr False \<Rightarrow> Inl TypeError)
      | PDict kvs \<Rightarrow>
          (if map_of kvs key_to_delete = None then Inl KeyError
           else Inr (PDict (AList.delete key_to_delete kvs)))
      | _ \<Rightarrow> Inl TypeError)"

text \<open>
  \<^verbatim>\<open>get_parent\<close> hands out the parent object itself, and \<^verbatim>\<open>delete\<close> mutates it. In
  the tree that is a rewrite at the position the walk of \<^verbatim>\<open>get\<close> reached:
  \<open>put_walk\<close> follows the steps of \<open>get_walk\<close> and puts the new node there,
  \<open>put_at\<close> does so for the two branches of \<open>get\<close>, \<open>put_parent\<close> for the two
  branches of \<open>get_parent\<close>.
\<close>

fun put_walk :: "node \<Rightarrow> string list \<Rightarrow> node \<Rightarrow> node" where
  "put_walk local_content [] new = new"
| "put_walk local_content (item # items) new =
     (case is_int item of
        Inl e \<Rightarrow> local_content
      | Inr True \<Rightarrow>
          (case local_content of
             PList xs \<Rightarrow>
               if in_range xs (py_int item) then
                 PList (xs[norm_index xs (py_int item) :=
                            put_walk (xs ! norm_index xs (py_int item)) items new])
               else local_content
           | _ \<Rightarrow> local_content)
      | Inr False \<Rightarrow>
          (case local_content of
             PDict kvs \<Rightarrow>
               (case map_of kvs item of
                  None \<Rightarrow> local_content
                | Some x \<Rightarrow> PDict (AList.update item (put_walk x items new) kvs))
           | _ \<Rightarrow> local_content))"

definition put_at :: "dictionary \<Rightarrow> string \<Rightarrow> node \<Rightarrow> node" where
  "put_at d param_name new =
     (if find_str (separator d) param_name > 0
      then put_walk (content d) (split_str (separator d) param_name) new
      else (case content d of
              PDict kvs \<Rightarrow> PDict (AList.update param_name new kvs)
            | c \<Rightarrow> c))"

definition put_parent :: "dictionary \<Rightarrow> string \<Rightarrow> node \<Rightarrow> dictionary" where
  "put_parent d param_name new =
     (if find_str (separator d) param_name > 0
      then d\<lparr>content :=
             put_at d (join_str (separator d) (butlast (split_str (separator d) param_name))) new\<rparr>
      else d\<lparr>content := new\<rparr>)"

definition delete :: "dictionary \<Rightarrow> string \<Rightarrow> (py_error + bool) \<times> dictionary" where
  "delete d param_name =
     (case key_exists d param_name of
        Inl e \<Rightarrow> (Inl e, d)
      | Inr False \<Rightarrow> (Inr False, d)
      | Inr True \<Rightarrow>
          (case get_parent d param_name of
             Inl e \<Rightarrow> (Inl e, d)
           | Inr parent \<Rightarrow>
               (case del_item parent (get_focused_key d param_name) of
                  Inl e \<Rightarrow> (Inl e, d)
                | Inr parent' \<Rightarrow> (Inr True, put_parent d param_name parent'))))"

subsection \<open>initialise\_recursive\<close>

text \<open>
  The test \<^verbatim>\<open>(isinstance(parent, dict) and not self._is_int(piece)) or
  (isinstance(parent, list) and self._is_int(piece))\<close>, which calls \<^verbatim>\<open>_is_int\<close>
  only for a dict or a list.
\<close>

definition may_create :: "node \<Rightarrow> string \<Rightarrow> py_error + bool" where
  "may_create parent piece =
     (case parent of
        PDict kvs \<Rightarrow> (case is_int piece of Inl e \<Rightarrow> Inl e | Inr b \<Rightarrow> Inr (\<not> b))
      | PList xs \<Rightarrow> is_int piece
      | _ \<Rightarrow> Inr False)"

text \<open>The loop over the pieces; \<open>parent_path\<close> is the path walked so far, with its separator.\<close>

fun init_loop :: "dictionary \<Rightarrow> string \<Rightarrow> string list \<Rightarrow> (py_error + unit) \<times> dictionary" where
  "init_loop d parent_path [] = (Inr (), d)"
| "init_loop d parent_path (piece # pieces) =
     (let path = parent_path @ piece in
      case key_exists d path of
        Inl e \<Rightarrow> (Inl e, d)
      | Inr True \<Rightarrow> init_loop d (path @ [separator d]) pieces
      | Inr False \<Rightarrow>
          (case get_parent d path of
             Inl e \<Rightarrow> (Inl e, d)
           | Inr parent \<Rightarrow>
               (case may_create parent piece of
                  Inl e \<Rightarrow> (Inl e, d)
                | Inr False \<Rightarrow> (Inl RuntimeError, d)
                | Inr True \<Rightarrow>
                    (case set_path d (Some path) (PDict []) of
                       (Inl e, d') \<Rightarrow> (Inl e, d')
                     | (Inr u, d') \<Rightarrow> init_loop d' (path @ [separator d]) pieces))))"

definition initialise_recursive :: "dictionary \<Rightarrow> string \<Rightarrow> (py_error + unit) \<times> dictionary" where
  "initialise_recursive d param_name =
     init_loop d [] (split_str (separator d) param_name)"

subsection \<open>Trees of nested dicts\<close>

text \<open>
  \<open>nested ks leaf\<close> is the chain of one-entry dicts \<^verbatim>\<open>{k1: {k2: ... leaf}}\<close>, the
  tree that \<^verbatim>\<open>initialise_recursive\<close> builds over an empty dict.
\<close>

fun nested :: "string list \<Rightarrow> node \<Rightarrow> node" where
  "nested [] leaf = leaf"
| "nested (k # ks) leaf = PDict [(k, nested ks leaf)]"

section \<open>Facts about the operations\<close>

subsection \<open>Index tests and the fill loop\<close>

lemma is_out_of_range_iff: "is_out_of_range i xs \<longleftrightarrow> \<not> in_range xs i"
  by (simp add: is_out_of_range_def list_getitem_def)

lemma fill_loop_append:
  "fill_loop (as @ bs) n v xs = fill_loop bs n v (fill_loop as n v xs)"
  by (induction as arbitrary: xs) auto

lemma fill_loop_skip:
  "\<forall>i \<in> set idxs. 0 \<le> i \<and> i < int (length xs) \<Longrightarrow> fill_loop idxs n v xs = xs"
  by (induction idxs) (auto simp: is_out_of_range_iff in_range_def)

lemma fill_loop_from_end:
  "k = int (length xs) \<Longrightarrow> k \<le> n \<Longrightarrow>
   fill_loop [k..n] n v xs = xs @ replicate (nat (n - k)) PNone @ [v]"
proof (induction "nat (n - k)" arbitrary: k xs)
  case 0
  then have "k = n" by simp
  with 0 show ?case by (simp add: is_out_of_range_iff in_range_def)
next
  case (Suc m)
  then have lt: "k < n" by linarith
  have out: "is_out_of_range k xs"
    using Suc.prems by (simp add: is_out_of_range_iff in_range_def)
  have step: "[k..n] = k # [k + 1..n]"
    using lt by (simp add: upto_rec1)
  have "fill_loop [k + 1..n] n v (xs @ [PNone])
          = (xs @ [PNone]) @ replicate (nat (n - (k + 1))) PNone @ [v]"
    using Suc.hyps(2) Suc.prems lt by (intro Suc.hyps(1)) auto
  moreover have "nat (n - k) = Suc (nat (n - (k + 1)))"
    using lt by linarith
  ultimately show ?case
    using lt out by (simp add: step)
qed

lemma fill_loop_range:
  assumes "int (length xs) \<le> n"
  shows "fill_loop [0..n] n v xs = xs @ replicate (nat n - length xs) PNone @ [v]"
proof -
  let ?k = "int (length xs)"
  have "[0..n] = [0..?k - 1] @ [?k..n]"
    using assms by (intro upto_split1) auto
  moreover have "fill_loop [0..?k - 1] n v xs = xs"
    by (rule fill_loop_skip) auto
  moreover have "nat (n - ?k) = nat n - length xs"
    using assms by linarith
  ultimately show ?thesis
    using fill_loop_from_end [of ?k xs n v] assms by (simp add: fill_loop_append)
qed

lemma recursive_set_terminal_extend:
  assumes "find_str sep seg \<le> 0" and "is_int seg = Inr True"
    and "int (length xs) \<le> py_int seg"
  shows "recursive_set sep seg v (PList xs)
           = (Inr (), PList (xs @ replicate (nat (py_int seg) - length xs) PNone @ [v]))"
  using assms by (simp add: recursive_set.simps [of sep seg] fill_loop_range)

subsection \<open>The branches of recursive\_set\<close>

lemma recursive_set_terminal:
  "\<not> 0 < find_str sep p \<Longrightarrow>
   recursive_set sep p v n =
     (case is_int p of
        Inl e \<Rightarrow> (Inl e, n)
      | Inr True \<Rightarrow>
          (case n of
             PList xs \<Rightarrow>
               if py_int p < int (length xs) then
                 (case list_setitem xs (py_int p) v of
                    Inl e \<Rightarrow> (Inl e, n)
                  | Inr xs' \<Rightarrow> (Inr (), PList xs'))
               else (Inr (), PList (fill_loop [0..py_int p] (py_int p) v xs))
           | _ \<Rightarrow> (Inl ValueError, n))
      | Inr False \<Rightarrow>
          (case n of
             PNone \<Rightarrow> (Inr (), PNone)
           | PDict kvs \<Rightarrow> (Inr (), PDict (AList.update p v kvs))
           | _ \<Rightarrow> (Inl TypeError, n)))"
  by (subst recursive_set.simps) simp

lemma recursive_set_index_step:
  "0 < find_str sep p \<Longrightarrow> is_int (hd (split_str sep p)) = Inr True \<Longrightarrow>
   recursive_set sep p v n =
     (case n of
        PList xs \<Rightarrow>
          if py_int (hd (split_str sep p)) < int (length xs) then
            (case list_getitem xs (py_int (hd (split_str sep p))) of
               Inl e \<Rightarrow> (Inl e, n)
             | Inr x \<Rightarrow>
                 if x \<noteq> PNone then
                   (case recursive_set sep (join_str sep (tl (split_str sep p))) v x of
                      (r, x') \<Rightarrow>
                        (r, PList (xs[norm_index xs (py_int (hd (split_str sep p))) := x'])))
                 else (Inl RuntimeError, n))
          else (Inl RuntimeError, n)
      | _ \<Rightarrow> (Inl ValueError, n))"
  by (subst recursive_set.simps) (simp add: Let_def)

lemma recursive_set_key_step:
  "0 < find_str sep p \<Longrightarrow> is_int (hd (split_str sep p)) = Inr False \<Longrightarrow>
   recursive_set sep p v n =
     (case n of
        PDict kvs \<Rightarrow>
          (case map_of kvs (hd (split_str sep p)) of
             None \<Rightarrow> (Inl RuntimeError, n)
           | Some x \<Rightarrow>
               (case recursive_set sep (join_str sep (tl (split_str sep p))) v x of
                  (r, x') \<Rightarrow> (r, PDict (AList.update (hd (split_str sep p)) x' kvs))))
      | _ \<Rightarrow> (Inl RuntimeError, n))"
  by (subst recursive_set.simps) (simp add: Let_def)

lemma recursive_set_bad_head:
  "0 < find_str sep p \<Longrightarrow> is_int (hd (split_str sep p)) = Inl e \<Longrightarrow>
   recursive_set sep p v n = (Inl e, n)"
  by (subst recursive_set.simps) (simp add: Let_def)

lemma recursive_set_raise_unchanged:
  "recursive_set sep p v n = (Inl e, n') \<Longrightarrow> n' = n"
proof (induction sep p v n arbitrary: n' rule: recursive_set.induct)
  case (1 sep p v n)
  show ?case
  proof (cases "0 < find_str sep p")
    case False
    from "1.prems" show ?thesis
      unfolding recursive_set_terminal [OF False]
      by (auto simp: list_setitem_def split: sum.splits bool.splits node.splits if_splits)
  next
    case split: True
    let ?h = "hd (split_str sep p)"
    let ?rest = "join_str sep (tl (split_str sep p))"
    show ?thesis
    proof (cases "is_int ?h")
      case (Inl e')
      with "1.prems" split show ?thesis by (simp add: recursive_set_bad_head)
    next
      case (Inr b)
      show ?thesis
      proof (cases b)
        case True
        with Inr have idx: "is_int ?h = Inr True" by simp
        show ?thesis
        proof (cases n)
          case (PList xs)
          show ?thesis
          proof (cases "py_int ?h < int (length xs) \<and> in_range xs (py_int ?h)
                        \<and> xs ! norm_index xs (py_int ?h) \<noteq> PNone")
            case False
            with "1.prems" PList show ?thesis
              unfolding recursive_set_index_step [OF split idx]
              by (auto simp: list_getitem_def split: if_splits)
          next
            case ok: True
            let ?x = "xs ! norm_index xs (py_int ?h)"
            obtain r x' where rec: "recursive_set sep ?rest v ?x = (r, x')"
              by (cases "recursive_set sep ?rest v ?x") auto
            from "1.prems" PList ok rec have r: "r = Inl e"
              and n': "n' = PList (xs[norm_index xs (py_int ?h) := x'])"
              unfolding recursive_set_index_step [OF split idx]
              by (auto simp: list_getitem_def)
            have "x' = ?x"
              using "1.IH"(1) [OF split refl idx refl PList _ _ _ rec [unfolded r]] ok
              by (simp add: list_getitem_def)
            with n' PList show ?thesis by simp
          qed
        qed (use "1.prems" in \<open>simp_all add: recursive_set_index_step [OF split idx]\<close>)
      next
        case False
        with Inr have key: "is_int ?h = Inr False" by simp
        show ?thesis
        proof (cases n)
          case (PDict kvs)
          show ?thesis
          proof (cases "map_of kvs ?h")
            case None
            with "1.prems" PDict show ?thesis
              unfolding recursive_set_key_step [OF split key] by simp
          next
            case (Some x)
            obtain r x' where rec: "recursive_set sep ?rest v x = (r, x')"
              by (cases "recursive_set sep ?rest v x") auto
            from "1.prems" PDict Some rec have r: "r = Inl e"
              and n': "n' = PDict (AList.update ?h x' kvs)"
              unfolding recursive_set_key_step [OF split key] by auto
            have "x' = x"
              using "1.IH"(2) [OF split refl key refl PDict Some rec [unfolded r]] .
            with n' PDict Some show ?thesis by (simp add: AList.update_triv)
          qed
        qed (use "1.prems" in \<open>simp_all add: recursive_set_key_step [OF split key]\<close>)
      qed
    qed
  qed
qed

lemma is_int_a: "is_int ''a'' = Inr False"
  by code_simp

lemma index_segments:
  "is_int ''0'' = Inr True" "py_int ''0'' = 0"
  "is_int ''1'' = Inr True" "py_int ''1'' = 1"
  "is_int ''2'' = Inr True" "py_int ''2'' = 2"
  "is_int ''3'' = Inr True" "py_int ''3'' = 3"
  by code_simp+

lemma map_of_in_keys: "(\<exists>y. map_of kvs k = Some y) = (k \<in> fst ` set kvs)"
  using map_of_eq_None_iff [of kvs k] by auto

subsection \<open>Writing through the reference that get returns\<close>

lemma norm_index_less: "in_range xs i \<Longrightarrow> norm_index xs i < length xs"
  by (auto simp: in_range_def norm_index_def)

lemma py_getitem_Inr: "py_getitem c k = Inr x \<Longrightarrow> \<exists>kvs. c = PDict kvs \<and> map_of kvs k = Some x"
  by (cases c) (auto split: option.splits)

lemma put_walk_not_None:
  "c \<noteq> PNone \<Longrightarrow> new \<noteq> PNone \<Longrightarrow> put_walk c items new \<noteq> PNone"
  by (cases items) (auto split: sum.splits bool.splits node.splits option.splits)

lemma get_walk_put_walk:
  "get_walk c items PNone = Inr old \<Longrightarrow> old \<noteq> PNone \<Longrightarrow> new \<noteq> PNone \<Longrightarrow>
   get_walk (put_walk c items new) items PNone = Inr new"
proof (induction items arbitrary: c)
  case Nil
  show ?case by simp
next
  case (Cons item items)
  show ?case
  proof (cases "is_int item")
    case (Inl e)
    with Cons.prems show ?thesis by simp
  next
    case (Inr b)
    show ?thesis
    proof (cases b)
      case True
      with Inr have idx: "is_int item = Inr True" by simp
      from Cons.prems(1,2) idx obtain xs where c: "c = PList xs"
        by (cases c) auto
      let ?i = "py_int item"
      let ?k = "norm_index xs ?i"
      from Cons.prems(1,2) idx c have lt: "?i < int (length xs)" and rng: "in_range xs ?i"
        and x: "xs ! ?k \<noteq> PNone" and rest: "get_walk (xs ! ?k) items PNone = Inr old"
        by (auto simp: list_getitem_def split: if_splits)
      have k: "?k < length xs" using rng by (rule norm_index_less)
      have y: "put_walk (xs ! ?k) items new \<noteq> PNone"
        using x Cons.prems(3) by (rule put_walk_not_None)
      have "get_walk (put_walk (xs ! ?k) items new) items PNone = Inr new"
        using rest Cons.prems(2,3) by (rule Cons.IH)
      moreover have "in_range (xs[?k := put_walk (xs ! ?k) items new]) ?i"
        using rng by (simp add: in_range_def)
      moreover have "norm_index (xs[?k := put_walk (xs ! ?k) items new]) ?i = ?k"
        by (simp add: norm_index_def)
      ultimately show ?thesis
        using idx c lt rng k y by (simp add: list_getitem_def)
    next
      case False
      with Inr have key: "is_int item = Inr False" by simp
      from Cons.prems(1,2) key obtain x where g: "py_getitem c item = Inr x"
        and x: "x \<noteq> PNone" and rest: "get_walk x items PNone = Inr old"
        by (auto split: sum.splits bool.splits if_splits)
      from g obtain kvs where c: "c = PDict kvs" and look: "map_of kvs item = Some x"
        using py_getitem_Inr by blast
      have y: "put_walk x items new \<noteq> PNone"
        using x Cons.prems(3) by (rule put_walk_not_None)
      have "get_walk (put_walk x items new) items PNone = Inr new"
        using rest Cons.prems(2,3) by (rule Cons.IH)
      then show ?thesis
        using key c look y by (simp add: AList.update_conv')
    qed
  qed
qed

lemma get_put_at:
  assumes "get d q PNone = Inr old" and "old \<noteq> PNone" and "new \<noteq> PNone"
  shows "get (d\<lparr>content := put_at d q new\<rparr>) q PNone = Inr new"
proof (cases "0 < find_str (separator d) q")
  case True
  with assms show ?thesis
    by (simp add: get_def put_at_def get_walk_put_walk)
next
  case False
  with assms obtain x where g: "py_getitem (content d) q = Inr x"
    by (auto simp: get_def split: if_splits sum.splits bool.splits)
  then obtain kvs where c: "content d = PDict kvs"
    using py_getitem_Inr by blast
  with False show ?thesis
    by (simp add: get_def put_at_def AList.update_conv')
qed

lemma get_parent_put_parent:
  assumes "get_parent d p = Inr old" and "old \<noteq> PNone" and "new \<noteq> PNone"
  shows "get_parent (put_parent d p new) p = Inr new"
proof (cases "0 < find_str (separator d) p")
  case True
  with assms show ?thesis
    by (simp add: get_parent_def put_parent_def get_put_at)
next
  case False
  then show ?thesis
    by (simp add: get_parent_def put_parent_def)
qed

lemma separator_put_parent: "separator (put_parent d p new) = separator d"
  by (simp add: put_parent_def)

lemma get_focused_key_put_parent:
  "get_focused_key (put_parent d p new) q = get_focused_key d q"
  by (simp add: get_focused_key_def separator_put_parent)

lemma is_int_not_index_char:
  "\<not> is_digit c \<Longrightarrow> c \<noteq> CHR ''-'' \<Longrightarrow> c \<noteq> CHR ''+'' \<Longrightarrow> is_int (c # cs) = Inr False"
  by (simp add: is_int_def isdecimal_def)

subsection \<open>Paths of key segments over nested dicts\<close>

lemma nested_snoc: "nested (ks @ [k]) leaf = nested ks (PDict [(k, leaf)])"
  by (induction ks) auto

lemma find_str_absent: "sep \<notin> set s \<Longrightarrow> find_str sep s = - 1"
  by (induction s) (auto simp: Let_def)

lemma find_str_first: "sep \<notin> set p \<Longrightarrow> find_str sep (p @ sep # rest) = int (length p)"
  by (induction p) (auto simp: Let_def)

lemma split_str_absent: "sep \<notin> set s \<Longrightarrow> split_str sep s = [s]"
  by (induction s) (auto simp: Let_def)

lemma split_str_first:
  "sep \<notin> set p \<Longrightarrow> split_str sep (p @ sep # rest) = p # split_str sep rest"
  by (induction p) (auto simp: Let_def)

lemma split_join_str:
  "ps \<noteq> [] \<Longrightarrow> \<forall>s \<in> set ps. sep \<notin> set s \<Longrightarrow> split_str sep (join_str sep ps) = ps"
proof (induction ps)
  case Nil
  then show ?case by simp
next
  case (Cons p ps)
  show ?case
  proof (cases ps)
    case Nil
    with Cons.prems show ?thesis by (simp add: split_str_absent)
  next
    case (Cons q qs)
    with Cons.prems Cons.IH show ?thesis
      by (simp add: split_str_first)
  qed
qed

lemma join_str_snoc: "qs \<noteq> [] \<Longrightarrow> join_str sep (qs @ [k]) = join_str sep qs @ sep # k"
  by (induction sep qs rule: join_str.induct) auto

lemma is_int_key_not_empty: "is_int s = Inr False \<Longrightarrow> s \<noteq> []"
  by (auto simp: is_int_def)

lemma find_join_str:
  assumes "sep \<notin> set p" and "p \<noteq> []" and "ps \<noteq> []"
  shows "0 < find_str sep (join_str sep (p # ps))"
  using assms by (simp add: join_str_Cons find_str_first)

lemma get_walk_nested:
  "\<forall>s \<in> set qs. is_int s = Inr False \<Longrightarrow> get_walk (nested qs x) qs PNone = Inr x"
proof (induction qs)
  case Nil
  show ?case by simp
next
  case (Cons q qs)
  then have "get_walk (nested qs x) qs PNone = Inr x" by simp
  moreover have "nested qs x = PNone \<Longrightarrow> x = PNone" by (cases qs) auto
  ultimately show ?case using Cons.prems by auto
qed

lemma get_nested:
  assumes "qs \<noteq> []" and "\<forall>s \<in> set qs. sep \<notin> set s \<and> is_int s = Inr False"
    and "content d = nested qs x" and "separator d = sep"
  shows "get d (join_str sep qs) PNone = Inr x"
proof (cases qs)
  case Nil
  with assms show ?thesis by simp
next
  case (Cons q rest)
  show ?thesis
  proof (cases rest)
    case Nil
    with Cons assms show ?thesis
      by (simp add: get_def find_str_absent)
  next
    case (Cons q' rest')
    have "0 < find_str sep (join_str sep qs)"
      unfolding \<open>qs = q # rest\<close> using assms(2) Cons \<open>qs = q # rest\<close>
      by (intro find_join_str) (auto simp: is_int_key_not_empty)
    moreover have "split_str sep (join_str sep qs) = qs"
      using assms by (intro split_join_str) auto
    moreover have "get_walk (nested qs x) qs PNone = Inr x"
      using assms by (intro get_walk_nested) auto
    ultimately show ?thesis using assms by (simp add: get_def)
  qed
qed

lemma recursive_set_nested:
  "\<forall>s \<in> set (qs @ [k]). sep \<notin> set s \<and> is_int s = Inr False \<Longrightarrow>
   recursive_set sep (join_str sep (qs @ [k])) v (nested qs (PDict kvs))
     = (Inr (), nested qs (PDict (AList.update k v kvs)))"
proof (induction qs)
  case Nil
  then have "\<not> 0 < find_str sep k" by (simp add: find_str_absent)
  with Nil show ?case by (simp add: recursive_set_terminal)
next
  case (Cons q qs)
  let ?p = "join_str sep (q # qs @ [k])"
  have found: "0 < find_str sep ?p"
    using Cons.prems by (simp add: join_str_Cons find_str_first is_int_key_not_empty)
  have pieces: "split_str sep ?p = q # qs @ [k]"
    using Cons.prems split_join_str [of "(q # qs) @ [k]" sep] by simp
  have key: "is_int (hd (split_str sep ?p)) = Inr False"
    using Cons.prems pieces by simp
  have inner: "recursive_set sep (join_str sep (qs @ [k])) v (nested qs (PDict kvs))
          = (Inr (), nested qs (PDict (AList.update k v kvs)))"
    using Cons.prems by (intro Cons.IH) auto
  have "recursive_set sep ?p v (PDict [(q, nested qs (PDict kvs))])
          = (Inr (), PDict [(q, nested qs (PDict (AList.update k v kvs)))])"
    by (subst recursive_set_key_step [OF found key]) (simp add: pieces inner)
  then show ?case by simp
qed

lemma init_loop_nested:
  assumes "\<forall>s \<in> set (qs @ rest). sep \<notin> set s \<and> is_int s = Inr False"
    and "content d = nested qs (PDict [])" and "separator d = sep"
  shows "init_loop d (if qs = [] then [] else join_str sep qs @ [sep]) rest
           = (Inr (), d\<lparr>content := nested (qs @ rest) (PDict [])\<rparr>)"
  using assms
proof (induction rest arbitrary: qs d)
  case Nil
  then show ?case by simp
next
  case (Cons piece rest)
  let ?pp = "if qs = [] then [] else join_str sep qs @ [sep]"
  let ?path = "join_str sep (qs @ [piece])"
  have path: "?pp @ piece = ?path"
    by (simp add: join_str_snoc)
  have piece: "sep \<notin> set piece" "is_int piece = Inr False"
    using Cons.prems(1) by auto
  have good: "\<forall>s \<in> set (qs @ [piece]). sep \<notin> set s \<and> is_int s = Inr False"
    using Cons.prems(1) by auto
  have parent: "get_parent d ?path = Inr (PDict [])" and focus: "get_focused_key d ?path = piece"
  proof -
    show "get_parent d ?path = Inr (PDict [])"
    proof (cases qs)
      case Nil
      with Cons.prems piece show ?thesis
        by (simp add: get_parent_def find_str_absent)
    next
      case (Cons q qs')
      have "0 < find_str sep ?path"
        using good Cons by (simp add: join_str_Cons find_str_first is_int_key_not_empty)
      moreover have "split_str sep ?path = qs @ [piece]"
        using good by (intro split_join_str) auto
      moreover have "get d (join_str sep qs) PNone = Inr (PDict [])"
        using Cons good \<open>content d = nested qs (PDict [])\<close> \<open>separator d = sep\<close>
        by (intro get_nested) auto
      ultimately show ?thesis
        using \<open>separator d = sep\<close> by (simp add: get_parent_def)
    qed
    show "get_focused_key d ?path = piece"
    proof (cases qs)
      case Nil
      with Cons.prems piece show ?thesis
        by (simp add: get_focused_key_def find_str_absent)
    next
      case (Cons q qs')
      have "0 < find_str sep ?path"
        using good Cons by (simp add: join_str_Cons find_str_first is_int_key_not_empty)
      moreover have "split_str sep ?path = qs @ [piece]"
        using good by (intro split_join_str) auto
      ultimately show ?thesis
        using \<open>separator d = sep\<close> by (simp add: get_focused_key_def)
    qed
  qed
  have absent: "key_exists d ?path = Inr False"
    by (simp add: key_exists_def parent focus)
  have create: "may_create (PDict []) piece = Inr True"
    using piece by (simp add: may_create_def)
  let ?d' = "d\<lparr>content := nested (qs @ [piece]) (PDict [])\<rparr>"
  have written: "set_path d (Some ?path) (PDict []) = (Inr (), ?d')"
    using recursive_set_nested [OF good, of "PDict []" "[]"] Cons.prems(2,3)
    by (simp add: set_path_def nested_snoc)
  have "init_loop ?d' (if qs @ [piece] = [] then [] else join_str sep (qs @ [piece]) @ [sep]) rest
          = (Inr (), ?d'\<lparr>content := nested ((qs @ [piece]) @ rest) (PDict [])\<rparr>)"
    using Cons.prems by (intro Cons.IH) auto
  then have "init_loop ?d' (?path @ [sep]) rest
          = (Inr (), d\<lparr>content := nested (qs @ piece # rest) (PDict [])\<rparr>)"
    by simp
  then show ?case
    using Cons.prems(3)
    by (simp only: init_loop.simps Let_def path absent parent create written
          sum.case bool.case prod.case)
qed

section \<open>The claims\<close>

subsection \<open>C1: reads that raise\<close>

text \<open>
  C1 says that \<^verbatim>\<open>get\<close>, \<^verbatim>\<open>key_exists\<close>, \<^verbatim>\<open>get_parent\<close> and \<^verbatim>\<open>get_keys_in\<close> return
  normally for every path and never raise. The loop of \<^verbatim>\<open>get\<close> guards an index
  piece with \<^verbatim>\<open>isinstance(local_content, list)\<close>, but evaluates
  \<^verbatim>\<open>item in local_content\<close> for a key piece on whatever node it has reached: over
  the tree \<^verbatim>\<open>{"a": 5}\<close> the path \<^verbatim>\<open>a.b\<close> reaches the integer and the test raises a
  \<^verbatim>\<open>TypeError\<close>, in \<^verbatim>\<open>get\<close> and in the three reads that call it.
\<close>

theorem reads_raise_on_scalar:
  "get \<lparr>content = PDict [(''a'', PInt 5)], separator = CHR ''.''\<rparr> ''a.b'' default_value
     = Inl TypeError
   \<and> key_exists \<lparr>content = PDict [(''a'', PInt 5)], separator = CHR ''.''\<rparr> ''a.b.c''
     = Inl TypeError
   \<and> get_parent \<lparr>content = PDict [(''a'', PInt 5)], separator = CHR ''.''\<rparr> ''a.b.c''
     = Inl TypeError
   \<and> get_keys_in \<lparr>content = PDict [(''a'', PInt 5)], separator = CHR ''.''\<rparr> (Some ''a.b'')
     = Inl TypeError"
  by code_simp

subsection \<open>C2: set then get\<close>

text \<open>
  C2 says that whenever \<^verbatim>\<open>set(p, v)\<close> completes, \<^verbatim>\<open>get(p)\<close> returns \<^verbatim>\<open>v\<close>. Over
  \<^verbatim>\<open>{"a": None}\<close> the call \<^verbatim>\<open>set("a.b", 5)\<close> completes: the last branch of
  \<^verbatim>\<open>__recursive_set\<close> assigns the new dict to its local name and the tree stays as
  it was, so \<^verbatim>\<open>get("a.b")\<close> returns the default \<^verbatim>\<open>None\<close>, not \<^verbatim>\<open>5\<close>.
\<close>

theorem set_on_none_parent_is_lost:
  "set_path \<lparr>content = PDict [(''a'', PNone)], separator = CHR ''.''\<rparr> (Some ''a.b'') (PInt 5)
     = (Inr (), \<lparr>content = PDict [(''a'', PNone)], separator = CHR ''.''\<rparr>)
   \<and> get \<lparr>content = PDict [(''a'', PNone)], separator = CHR ''.''\<rparr> ''a.b'' PNone
     = Inr PNone"
  by code_simp

subsection \<open>C3: a key written onto a node that is no container\<close>

text \<open>
  C3 says that a final key segment addressing a scalar or \<^verbatim>\<open>None\<close> replaces that
  node by the one-entry dict \<^verbatim>\<open>{segment: value}\<close> at the top level, and that the
  same situation at a non-terminal point raises. The code never replaces: with
  \<^verbatim>\<open>None\<close> as the node the call returns and nothing changes, with a scalar the item
  assignment raises a \<^verbatim>\<open>TypeError\<close>, at the root as below a key. Only the second
  half holds: a non-terminal key piece on a scalar raises the \<^verbatim>\<open>RuntimeError\<close>.
\<close>

theorem set_never_replaces_non_container:
  "set_path \<lparr>content = PNone, separator = CHR ''.''\<rparr> (Some ''k'') val
     = (Inr (), \<lparr>content = PNone, separator = CHR ''.''\<rparr>)
   \<and> set_path \<lparr>content = PStr ''s'', separator = CHR ''.''\<rparr> (Some ''k'') val
     = (Inl TypeError, \<lparr>content = PStr ''s'', separator = CHR ''.''\<rparr>)
   \<and> set_path \<lparr>content = PDict [(''a'', PNone)], separator = CHR ''.''\<rparr> (Some ''a.k'') val
     = (Inr (), \<lparr>content = PDict [(''a'', PNone)], separator = CHR ''.''\<rparr>)
   \<and> set_path \<lparr>content = PDict [(''a'', PStr ''x'')], separator = CHR ''.''\<rparr> (Some ''a.k'') val
     = (Inl TypeError, \<lparr>content = PDict [(''a'', PStr ''x'')], separator = CHR ''.''\<rparr>)
   \<and> set_path \<lparr>content = PDict [(''a'', PStr ''x'')], separator = CHR ''.''\<rparr> (Some ''a.k.j'') val
     = (Inl RuntimeError, \<lparr>content = PDict [(''a'', PStr ''x'')], separator = CHR ''.''\<rparr>)"
  by code_simp

subsection \<open>C4: a mutation that fails\<close>

text \<open>
  C4 says that \<^verbatim>\<open>set\<close> and \<^verbatim>\<open>initialise_recursive\<close> leave the tree as it was when
  they raise. For \<^verbatim>\<open>set\<close> this holds: every \<^verbatim>\<open>raise\<close> of \<^verbatim>\<open>__recursive_set\<close> comes
  before its one mutation. \<^verbatim>\<open>initialise_recursive\<close> creates the missing segments one
  by one and has nothing that undoes them: over the empty tree, the path \<^verbatim>\<open>a.0\<close>
  creates \<^verbatim>\<open>a\<close>, then fails on the index \<^verbatim>\<open>0\<close> under a dict, and \<^verbatim>\<open>a\<close> stays.
\<close>

theorem failed_initialise_recursive_keeps_prefix:
  "initialise_recursive \<lparr>content = PDict [], separator = CHR ''.''\<rparr> ''a.0''
     = (Inl RuntimeError, \<lparr>content = PDict [(''a'', PDict [])], separator = CHR ''.''\<rparr>)
   \<and> snd (initialise_recursive \<lparr>content = PDict [], separator = CHR ''.''\<rparr> ''a.0'')
     \<noteq> \<lparr>content = PDict [], separator = CHR ''.''\<rparr>"
  by code_simp

text \<open>
  C4 as amended: a call of \<^verbatim>\<open>set\<close> that raises leaves the tree exactly as it was
  before the call.
\<close>

theorem failed_set_leaves_tree:
  "set_path d p v = (Inl e, d') \<Longrightarrow> d' = d"
  by (cases p) (auto simp: set_path_def split: prod.splits dest: recursive_set_raise_unchanged)

theorem failed_set_leaves_tree_witness:
  "fst (set_path \<lparr>content = PDict [(''a'', PInt 1)], separator = CHR ''.''\<rparr>
          (Some ''b.c'') (PInt 2)) = Inl RuntimeError
   \<and> snd (set_path \<lparr>content = PDict [(''a'', PInt 1)], separator = CHR ''.''\<rparr>
          (Some ''b.c'') (PInt 2)) = \<lparr>content = PDict [(''a'', PInt 1)], separator = CHR ''.''\<rparr>"
proof -
  let ?d = "\<lparr>content = PDict [(''a'', PInt 1)], separator = CHR ''.''\<rparr>"
  have r: "fst (set_path ?d (Some ''b.c'') (PInt 2)) = Inl RuntimeError"
    by code_simp
  then have "set_path ?d (Some ''b.c'') (PInt 2)
               = (Inl RuntimeError, snd (set_path ?d (Some ''b.c'') (PInt 2)))"
    by (metis prod.collapse)
  then have "snd (set_path ?d (Some ''b.c'') (PInt 2)) = ?d"
    by (rule failed_set_leaves_tree)
  with r show ?thesis by simp
qed

subsection \<open>C5: delete, twice\<close>

text \<open>
  C5 says that \<^verbatim>\<open>delete(p)\<close> called twice returns true, then false, and that the
  second call changes nothing. Under a list \<^verbatim>\<open>del parent[index]\<close> moves the later
  elements down, so the index exists again: over \<^verbatim>\<open>{"a": [1, 2]}\<close> both calls of
  \<^verbatim>\<open>delete("a.0")\<close> return true and the second removes another element.
\<close>

theorem delete_twice_on_list:
  "fst (delete \<lparr>content = PDict [(''a'', PList [PInt 1, PInt 2])], separator = CHR ''.''\<rparr> ''a.0'')
     = Inr True
   \<and> delete (snd (delete \<lparr>content = PDict [(''a'', PList [PInt 1, PInt 2])],
                             separator = CHR ''.''\<rparr> ''a.0'')) ''a.0''
     = (Inr True, \<lparr>content = PDict [(''a'', PList [])], separator = CHR ''.''\<rparr>)
   \<and> snd (delete \<lparr>content = PDict [(''a'', PList [PInt 1, PInt 2])], separator = CHR ''.''\<rparr> ''a.0'')
     = \<lparr>content = PDict [(''a'', PList [PInt 2])], separator = CHR ''.''\<rparr>"
  by code_simp

text \<open>
  C5 as amended: when \<^verbatim>\<open>p\<close> exists and its parent is a dict, \<^verbatim>\<open>delete(p)\<close> returns
  true and removes the key from the parent, and a second \<^verbatim>\<open>delete(p)\<close> returns
  false and leaves the tree as the first call left it; and a \<^verbatim>\<open>delete\<close> of a path
  that does not exist returns false and changes nothing.
\<close>

theorem delete_twice_map_key:
  "(key_exists d p = Inr True \<and> get_parent d p = Inr (PDict kvs) \<longrightarrow>
      delete d p
        = (Inr True, put_parent d p (PDict (AList.delete (get_focused_key d p) kvs)))
      \<and> get_parent (snd (delete d p)) p
        = Inr (PDict (AList.delete (get_focused_key d p) kvs))
      \<and> delete (snd (delete d p)) p = (Inr False, snd (delete d p)))
   \<and> (key_exists d p = Inr False \<longrightarrow> delete d p = (Inr False, d))"
proof (intro conjI impI)
  assume "key_exists d p = Inr False"
  then show "delete d p = (Inr False, d)" by (simp add: delete_def)
next
  assume h: "key_exists d p = Inr True \<and> get_parent d p = Inr (PDict kvs)"
  let ?k = "get_focused_key d p"
  let ?new = "PDict (AList.delete ?k kvs)"
  let ?d' = "put_parent d p ?new"
  from h have present: "map_of kvs ?k \<noteq> None"
    by (auto simp: key_exists_def Let_def)
  with h show first: "delete d p = (Inr True, ?d')"
    by (auto simp: delete_def del_item_def)
  have parent: "get_parent ?d' p = Inr ?new"
    using h by (intro get_parent_put_parent) auto
  with first show "get_parent (snd (delete d p)) p = Inr ?new"
    by simp
  have "get_focused_key ?d' p = ?k"
    by (rule get_focused_key_put_parent)
  with parent have "key_exists ?d' p = Inr False"
    by (simp add: key_exists_def AList.delete_conv')
  then have "delete ?d' p = (Inr False, ?d')"
    by (simp add: delete_def)
  with first show "delete (snd (delete d p)) p = (Inr False, snd (delete d p))"
    by simp
qed

theorem delete_twice_map_key_witness:
  "delete \<lparr>content = PDict [(''a'', PDict [(''b'', PDict [(''c'', PInt 1), (''d'', PInt 2)])])],
           separator = CHR ''.''\<rparr> ''a.b.c''
     = (Inr True, \<lparr>content = PDict [(''a'', PDict [(''b'', PDict [(''d'', PInt 2)])])],
                   separator = CHR ''.''\<rparr>)
   \<and> delete \<lparr>content = PDict [(''a'', PDict [(''b'', PDict [(''d'', PInt 2)])])],
             separator = CHR ''.''\<rparr> ''a.b.c''
     = (Inr False, \<lparr>content = PDict [(''a'', PDict [(''b'', PDict [(''d'', PInt 2)])])],
                    separator = CHR ''.''\<rparr>)
   \<and> delete \<lparr>content = PDict [(''a'', PList [PInt 0, PDict [(''c'', PInt 1)]])],
             separator = CHR ''.''\<rparr> ''a.1.c''
     = (Inr True, \<lparr>content = PDict [(''a'', PList [PInt 0, PDict []])], separator = CHR ''.''\<rparr>)
   \<and> delete \<lparr>content = PDict [(''a'', PList [PInt 0, PDict []])], separator = CHR ''.''\<rparr> ''a.1.c''
     = (Inr False, \<lparr>content = PDict [(''a'', PList [PInt 0, PDict []])], separator = CHR ''.''\<rparr>)
   \<and> delete \<lparr>content = PDict [(''a'', PInt 1)], separator = CHR ''.''\<rparr> ''a''
     = (Inr True, \<lparr>content = PDict [], separator = CHR ''.''\<rparr>)
   \<and> delete \<lparr>content = PDict [], separator = CHR ''.''\<rparr> ''a''
     = (Inr False, \<lparr>content = PDict [], separator = CHR ''.''\<rparr>)"
proof -
  let ?d = "\<lparr>content = PDict [(''a'', PDict [(''b'', PDict [(''c'', PInt 1), (''d'', PInt 2)])])],
             separator = CHR ''.''\<rparr>"
  let ?d' = "\<lparr>content = PDict [(''a'', PDict [(''b'', PDict [(''d'', PInt 2)])])],
              separator = CHR ''.''\<rparr>"
  let ?e = "\<lparr>content = PDict [(''a'', PList [PInt 0, PDict [(''c'', PInt 1)]])],
             separator = CHR ''.''\<rparr>"
  let ?e' = "\<lparr>content = PDict [(''a'', PList [PInt 0, PDict []])], separator = CHR ''.''\<rparr>"
  let ?f = "\<lparr>content = PDict [(''a'', PInt 1)], separator = CHR ''.''\<rparr>"
  let ?f' = "\<lparr>content = PDict [], separator = CHR ''.''\<rparr>"
  have hd: "key_exists ?d ''a.b.c'' = Inr True
            \<and> get_parent ?d ''a.b.c'' = Inr (PDict [(''c'', PInt 1), (''d'', PInt 2)])"
    by code_simp
  have he: "key_exists ?e ''a.1.c'' = Inr True
            \<and> get_parent ?e ''a.1.c'' = Inr (PDict [(''c'', PInt 1)])"
    by code_simp
  have hf: "key_exists ?f ''a'' = Inr True \<and> get_parent ?f ''a'' = Inr (PDict [(''a'', PInt 1)])"
    by code_simp
  have hg: "key_exists ?f' ''a'' = Inr False"
    by code_simp
  have pd: "put_parent ?d ''a.b.c''
              (PDict (AList.delete (get_focused_key ?d ''a.b.c'') [(''c'', PInt 1), (''d'', PInt 2)]))
            = ?d'"
    by code_simp
  have pe: "put_parent ?e ''a.1.c''
              (PDict (AList.delete (get_focused_key ?e ''a.1.c'') [(''c'', PInt 1)])) = ?e'"
    by code_simp
  have pf: "put_parent ?f ''a''
              (PDict (AList.delete (get_focused_key ?f ''a'') [(''a'', PInt 1)])) = ?f'"
    by code_simp
  note t = delete_twice_map_key
  from t [of ?d "''a.b.c''" "[(''c'', PInt 1), (''d'', PInt 2)]"] hd
  have "delete ?d ''a.b.c'' = (Inr True, ?d') \<and> delete ?d' ''a.b.c'' = (Inr False, ?d')"
    unfolding pd by auto
  moreover from t [of ?e "''a.1.c''" "[(''c'', PInt 1)]"] he
  have "delete ?e ''a.1.c'' = (Inr True, ?e') \<and> delete ?e' ''a.1.c'' = (Inr False, ?e')"
    unfolding pe by auto
  moreover from t [of ?f "''a''" "[(''a'', PInt 1)]"] hf
  have "delete ?f ''a'' = (Inr True, ?f')"
    unfolding pf by auto
  moreover from t [of ?f' "''a''"] hg
  have "delete ?f' ''a'' = (Inr False, ?f')"
    by blast
  ultimately show ?thesis by blast
qed

subsection \<open>C6: a list grows to the index written\<close>

text \<open>
  C6: with an empty list at key \<^verbatim>\<open>a\<close>, \<^verbatim>\<open>set("a.3", "x")\<close> leaves a list of the
  positions 0 to 3, the first three \<^verbatim>\<open>None\<close> (so \<^verbatim>\<open>get\<close> returns the default for
  them) and the last \<^verbatim>\<open>"x"\<close>; and in general a terminal index at or beyond the
  length of the list appends as many \<^verbatim>\<open>None\<close> as it takes to reach the index, and
  then the value.
\<close>

theorem sequence_auto_extension:
  "(content d = PDict kvs \<and> separator d = CHR ''.'' \<and> map_of kvs ''a'' = Some (PList []) \<longrightarrow>
      (let d' = d\<lparr>content := PDict (AList.update ''a'' (PList [PNone, PNone, PNone, PStr ''x'']) kvs)\<rparr>
       in set_path d (Some ''a.3'') (PStr ''x'') = (Inr (), d')
          \<and> get_keys_in d' (Some ''a'') = Inr (PList [PInt 0, PInt 1, PInt 2, PInt 3])
          \<and> get d' ''a.0'' default_value = Inr default_value
          \<and> get d' ''a.1'' default_value = Inr default_value
          \<and> get d' ''a.2'' default_value = Inr default_value
          \<and> get d' ''a.3'' default_value = Inr (PStr ''x'')))
   \<and> (find_str sep seg \<le> 0 \<and> is_int seg = Inr True \<and> int (length xs) \<le> py_int seg \<longrightarrow>
        recursive_set sep seg v (PList xs)
          = (Inr (), PList (xs @ replicate (nat (py_int seg) - length xs) PNone @ [v])))"
proof (intro conjI impI)
  assume h: "content d = PDict kvs \<and> separator d = CHR ''.'' \<and> map_of kvs ''a'' = Some (PList [])"
  let ?new = "PList [PNone, PNone, PNone, PStr ''x'']"
  let ?d' = "d\<lparr>content := PDict (AList.update ''a'' ?new kvs)\<rparr>"
  have inner: "recursive_set CHR ''.'' ''3'' (PStr ''x'') (PList []) = (Inr (), ?new)"
    by (simp add: recursive_set_terminal_extend index_segments numeral_3_eq_3)
  have outer: "recursive_set CHR ''.'' ''a.3'' (PStr ''x'') (PDict kvs)
                 = (Inr (), PDict (AList.update ''a'' ?new kvs))"
    using h by (subst recursive_set_key_step) (simp_all add: is_int_a inner)
  have s: "set_path d (Some ''a.3'') (PStr ''x'') = (Inr (), ?d')"
    using h by (simp add: set_path_def outer)
  have look: "map_of (AList.update ''a'' ?new kvs) ''a'' = Some ?new"
    by (simp add: AList.update_conv')
  note walk = get_def is_int_a index_segments look list_getitem_def in_range_def norm_index_def
  have keys: "get_keys_in ?d' (Some ''a'') = Inr (PList [PInt 0, PInt 1, PInt 2, PInt 3])"
    using h by (simp add: get_keys_in_def get_def look upt_rec)
  have g0: "get ?d' ''a.0'' default_value = Inr default_value"
    using h by (simp add: walk)
  have g1: "get ?d' ''a.1'' default_value = Inr default_value"
    using h by (simp add: walk)
  have g2: "get ?d' ''a.2'' default_value = Inr default_value"
    using h by (simp add: walk)
  have g3: "get ?d' ''a.3'' default_value = Inr (PStr ''x'')"
    using h by (simp add: walk)
  show "let d' = ?d' in set_path d (Some ''a.3'') (PStr ''x'') = (Inr (), d')
          \<and> get_keys_in d' (Some ''a'') = Inr (PList [PInt 0, PInt 1, PInt 2, PInt 3])
          \<and> get d' ''a.0'' default_value = Inr default_value
          \<and> get d' ''a.1'' default_value = Inr default_value
          \<and> get d' ''a.2'' default_value = Inr default_value
          \<and> get d' ''a.3'' default_value = Inr (PStr ''x'')"
    unfolding Let_def using s keys g0 g1 g2 g3 by blast
next
  assume "find_str sep seg \<le> 0 \<and> is_int seg = Inr True \<and> int (length xs) \<le> py_int seg"
  then show "recursive_set sep seg v (PList xs)
          = (Inr (), PList (xs @ replicate (nat (py_int seg) - length xs) PNone @ [v]))"
    by (simp add: recursive_set_terminal_extend)
qed

theorem sequence_auto_extension_witness:
  "set_path \<lparr>content = PDict [(''a'', PList [])], separator = CHR ''.''\<rparr> (Some ''a.3'') (PStr ''x'')
     = (Inr (), \<lparr>content = PDict [(''a'', PList [PNone, PNone, PNone, PStr ''x''])],
                 separator = CHR ''.''\<rparr>)
   \<and> get_keys_in \<lparr>content = PDict [(''a'', PList [PNone, PNone, PNone, PStr ''x''])],
                   separator = CHR ''.''\<rparr> (Some ''a'')
     = Inr (PList [PInt 0, PInt 1, PInt 2, PInt 3])
   \<and> get \<lparr>content = PDict [(''a'', PList [PNone, PNone, PNone, PStr ''x''])],
           separator = CHR ''.''\<rparr> ''a.1'' (PInt 7) = Inr (PInt 7)
   \<and> get \<lparr>content = PDict [(''a'', PList [PNone, PNone, PNone, PStr ''x''])],
           separator = CHR ''.''\<rparr> ''a.3'' (PInt 7) = Inr (PStr ''x'')
   \<and> recursive_set CHR ''.'' ''3'' (PInt 9) (PList [PInt 1])
     = (Inr (), PList [PInt 1, PNone, PNone, PInt 9])"
proof -
  let ?d = "\<lparr>content = PDict [(''a'', PList [])], separator = CHR ''.''\<rparr>"
  have h1: "content ?d = PDict [(''a'', PList [])] \<and> separator ?d = CHR ''.''
            \<and> map_of [(''a'', PList [])] ''a'' = Some (PList [])"
    by simp
  have h2: "find_str CHR ''.'' ''3'' \<le> 0 \<and> is_int ''3'' = Inr True
            \<and> int (length [PInt 1]) \<le> py_int ''3''"
    by (simp add: index_segments)
  from h1 h2
    sequence_auto_extension [where d = ?d and kvs = "[(''a'', PList [])]"
      and default_value = "PInt 7" and sep = "CHR ''.''" and seg = "''3''"
      and xs = "[PInt 1]" and v = "PInt 9"]
  show ?thesis
    by (simp add: Let_def index_segments numeral_2_eq_2)
qed

subsection \<open>C7: initialise\_recursive, then set\<close>

text \<open>
  C7 says that over the empty tree, for any dotted path not yet present,
  \<^verbatim>\<open>initialise_recursive(p)\<close> and then \<^verbatim>\<open>set(p, v)\<close> succeed and \<^verbatim>\<open>get(p)\<close> returns
  \<^verbatim>\<open>v\<close>. \<^verbatim>\<open>initialise_recursive\<close> only ever creates dicts and refuses an index
  segment under a dict: the absent path \<^verbatim>\<open>servers.0\<close> makes it raise.
\<close>

theorem initialise_recursive_index_segment:
  "initialise_recursive \<lparr>content = PDict [], separator = CHR ''.''\<rparr> ''servers.0''
     = (Inl RuntimeError, \<lparr>content = PDict [(''servers'', PDict [])], separator = CHR ''.''\<rparr>)
   \<and> get \<lparr>content = PDict [], separator = CHR ''.''\<rparr> ''servers.0'' PNone = Inr PNone
   \<and> key_exists \<lparr>content = PDict [], separator = CHR ''.''\<rparr> ''servers.0'' = Inr False"
  by code_simp

text \<open>
  C7 as amended: over the empty tree, for any path joined from segments that are
  key segments (none is empty, none reads as an integer), \<^verbatim>\<open>initialise_recursive(p)\<close>
  and then \<^verbatim>\<open>set(p, v)\<close> both return, and \<^verbatim>\<open>get(p)\<close> then returns \<^verbatim>\<open>v\<close>.
\<close>

theorem initialise_then_set_key_path:
  "ps \<noteq> [] \<and> (\<forall>s \<in> set ps. sep \<notin> set s \<and> is_int s = Inr False)
   \<and> content d = PDict [] \<and> separator d = sep \<longrightarrow>
     fst (initialise_recursive d (join_str sep ps)) = Inr ()
     \<and> fst (set_path (snd (initialise_recursive d (join_str sep ps))) (Some (join_str sep ps)) v)
         = Inr ()
     \<and> get (snd (set_path (snd (initialise_recursive d (join_str sep ps)))
                  (Some (join_str sep ps)) v)) (join_str sep ps) PNone = Inr v"
proof (intro impI)
  assume h: "ps \<noteq> [] \<and> (\<forall>s \<in> set ps. sep \<notin> set s \<and> is_int s = Inr False)
             \<and> content d = PDict [] \<and> separator d = sep"
  let ?p = "join_str sep ps"
  let ?d1 = "d\<lparr>content := nested ps (PDict [])\<rparr>"
  let ?d2 = "d\<lparr>content := nested ps v\<rparr>"
  have pieces: "split_str sep ?p = ps"
    using h by (intro split_join_str) auto
  have "init_loop d (if [] = ([]::string list) then [] else join_str sep [] @ [sep]) ps
          = (Inr (), d\<lparr>content := nested ([] @ ps) (PDict [])\<rparr>)"
    using h by (intro init_loop_nested) auto
  then have init: "initialise_recursive d ?p = (Inr (), ?d1)"
    using h by (simp add: initialise_recursive_def pieces)
  have bl: "butlast ps @ [last ps] = ps" using h by simp
  have "recursive_set sep (join_str sep (butlast ps @ [last ps])) v
          (nested (butlast ps) (PDict [(last ps, PDict [])]))
        = (Inr (), nested (butlast ps) (PDict (AList.update (last ps) v [(last ps, PDict [])])))"
    using h bl by (intro recursive_set_nested) auto
  then have "recursive_set sep ?p v (nested ps (PDict [])) = (Inr (), nested ps v)"
    using nested_snoc [of "butlast ps" "last ps"] bl by simp
  then have written: "set_path ?d1 (Some ?p) v = (Inr (), ?d2)"
    using h by (simp add: set_path_def)
  have read: "get ?d2 ?p PNone = Inr v"
    using h by (intro get_nested) auto
  show "fst (initialise_recursive d ?p) = Inr ()
     \<and> fst (set_path (snd (initialise_recursive d ?p)) (Some ?p) v) = Inr ()
     \<and> get (snd (set_path (snd (initialise_recursive d ?p)) (Some ?p) v)) ?p PNone = Inr v"
    by (simp add: init written read)
qed

theorem initialise_then_set_key_path_witness:
  "fst (initialise_recursive \<lparr>content = PDict [], separator = CHR ''.''\<rparr> ''a.b.c'') = Inr ()
   \<and> fst (set_path (snd (initialise_recursive \<lparr>content = PDict [], separator = CHR ''.''\<rparr> ''a.b.c''))
            (Some ''a.b.c'') (PInt 7)) = Inr ()
   \<and> get (snd (set_path (snd (initialise_recursive \<lparr>content = PDict [], separator = CHR ''.''\<rparr> ''a.b.c''))
                 (Some ''a.b.c'') (PInt 7))) ''a.b.c'' PNone = Inr (PInt 7)"
proof -
  let ?d = "\<lparr>content = PDict [], separator = CHR ''.''\<rparr>"
  have h: "[''a'', ''b'', ''c''] \<noteq> []
           \<and> (\<forall>s \<in> set [''a'', ''b'', ''c'']. CHR ''.'' \<notin> set s \<and> is_int s = Inr False)
           \<and> content ?d = PDict [] \<and> separator ?d = CHR ''.''"
    by (simp add: is_int_def isdecimal_def is_digit_def)
  have j: "join_str CHR ''.'' [''a'', ''b'', ''c''] = ''a.b.c''"
    by simp
  from initialise_then_set_key_path [where ps = "[''a'', ''b'', ''c'']" and sep = "CHR ''.''"
      and d = ?d and v = "PInt 7"] h
  show ?thesis unfolding j by blast
qed

subsection \<open>C8: key\_exists when the parent does not resolve\<close>

text \<open>
  C8 says that for every path \<^verbatim>\<open>key_exists\<close> returns false when the parent path does
  not resolve to a node, and otherwise answers by the shape of the parent.
  \<^verbatim>\<open>key_exists\<close> resolves the parent with \<^verbatim>\<open>get\<close>, and where the walk of \<^verbatim>\<open>get\<close>
  raises, \<^verbatim>\<open>key_exists\<close> raises with it instead of returning false: over
  \<^verbatim>\<open>{"a": 5}\<close> the parent \<^verbatim>\<open>a.b\<close> of \<^verbatim>\<open>a.b.c\<close> ends in the \<^verbatim>\<open>TypeError\<close> of the key
  test on an integer, and over \<^verbatim>\<open>{"a": [1, 2]}\<close> the parent \<^verbatim>\<open>a.-3\<close> of \<^verbatim>\<open>a.-3.b\<close>
  ends in the \<^verbatim>\<open>IndexError\<close> of reading the list at \<open>-3\<close>.
\<close>

theorem key_exists_raises_when_parent_walk_raises:
  "get \<lparr>content = PDict [(''a'', PInt 5)], separator = CHR ''.''\<rparr> ''a.b'' PNone = Inl TypeError
   \<and> key_exists \<lparr>content = PDict [(''a'', PInt 5)], separator = CHR ''.''\<rparr> ''a.b.c'' = Inl TypeError
   \<and> get \<lparr>content = PDict [(''a'', PList [PInt 1, PInt 2])], separator = CHR ''.''\<rparr> ''a.-3'' PNone
       = Inl IndexError
   \<and> key_exists \<lparr>content = PDict [(''a'', PList [PInt 1, PInt 2])], separator = CHR ''.''\<rparr> ''a.-3.b''
       = Inl IndexError"
  by code_simp

subsection \<open>C9: set with an empty path\<close>

text \<open>
  C9 says that \<^verbatim>\<open>set\<close> fails with the error for a missing name whenever the path is
  empty or absent. \<^verbatim>\<open>set\<close> refuses \<^verbatim>\<open>None\<close> with \<^verbatim>\<open>RuntimeError("Params must have a
  name")\<close>, but lets the empty string through: \<^verbatim>\<open>_is_int\<close> then reads its first
  character and the call ends in an \<^verbatim>\<open>IndexError\<close>, whatever the tree.
\<close>

theorem set_empty_path_index_error:
  "set_path d (Some []) val = (Inl IndexError, d)
   \<and> set_path d None val = (Inl RuntimeError, d)"
  by (simp add: set_path_def recursive_set.simps [of _ "[]"] is_int_def)

subsection \<open>C10: a path that begins with the separator\<close>

text \<open>
  C10 says that a path beginning with the separator is never split and is treated
  as one key of the root dict by \<^verbatim>\<open>get\<close>, \<^verbatim>\<open>set\<close>, \<^verbatim>\<open>key_exists\<close> and
  \<^verbatim>\<open>get_parent\<close>. None of them splits it, but \<^verbatim>\<open>set\<close> still classifies the whole
  string with \<^verbatim>\<open>_is_int\<close>: with the separator \<^verbatim>\<open>-\<close> the path \<^verbatim>\<open>-1\<close> is an index, and
  over a dict the call raises the \<^verbatim>\<open>ValueError\<close> instead of writing the key.
\<close>

theorem leading_separator_index_counterexample:
  "set_path \<lparr>content = PDict [], separator = CHR ''-''\<rparr> (Some ''-1'') (PInt 0)
     = (Inl ValueError, \<lparr>content = PDict [], separator = CHR ''-''\<rparr>)
   \<and> set_path \<lparr>content = PDict [], separator = CHR ''-''\<rparr> (Some ''-1'') (PInt 0)
     \<noteq> (Inr (), \<lparr>content = PDict [(''-1'', PInt 0)], separator = CHR ''-''\<rparr>)"
  by code_simp

text \<open>
  C10 as amended: for a path that begins with the separator, over a root dict,
  \<^verbatim>\<open>get\<close> looks the entire string up as one key, \<^verbatim>\<open>get_parent\<close> returns the root,
  and \<^verbatim>\<open>key_exists\<close> tests the entire string as a key; \<^verbatim>\<open>set\<close> writes it as one
  key unless the entire string reads as an integer, in which case it raises the
  \<^verbatim>\<open>ValueError\<close>. The string cannot read as an integer when the separator is
  neither a sign nor a digit, as for the default separator.
\<close>

theorem leading_separator_is_one_key:
  "(content d = PDict kvs \<and> separator d = sep \<longrightarrow>
      get d (sep # rest) default_value
        = Inr (case map_of kvs (sep # rest) of None \<Rightarrow> default_value | Some x \<Rightarrow> x)
      \<and> get_parent d (sep # rest) = Inr (PDict kvs)
      \<and> get_focused_key d (sep # rest) = sep # rest
      \<and> key_exists d (sep # rest) = Inr (sep # rest \<in> fst ` set kvs))
   \<and> (content d = PDict kvs \<and> separator d = sep \<and> is_int (sep # rest) = Inr False \<longrightarrow>
      set_path d (Some (sep # rest)) v
        = (Inr (), d\<lparr>content := PDict (AList.update (sep # rest) v kvs)\<rparr>))
   \<and> (content d = PDict kvs \<and> separator d = sep \<and> is_int (sep # rest) = Inr True \<longrightarrow>
      set_path d (Some (sep # rest)) v = (Inl ValueError, d))
   \<and> (\<not> is_digit sep \<and> sep \<noteq> CHR ''-'' \<and> sep \<noteq> CHR ''+'' \<longrightarrow>
      is_int (sep # rest) = Inr False)"
proof (intro conjI impI)
  assume h: "content d = PDict kvs \<and> separator d = sep"
  show "get d (sep # rest) default_value
        = Inr (case map_of kvs (sep # rest) of None \<Rightarrow> default_value | Some x \<Rightarrow> x)"
    using h by (cases kvs) (auto simp: get_def split: option.splits)
  show "get_parent d (sep # rest) = Inr (PDict kvs)"
    using h by (simp add: get_parent_def)
  show "get_focused_key d (sep # rest) = sep # rest"
    using h by (simp add: get_focused_key_def)
  show "key_exists d (sep # rest) = Inr (sep # rest \<in> fst ` set kvs)"
    using h by (simp add: key_exists_def get_parent_def get_focused_key_def map_of_in_keys)
next
  assume h: "content d = PDict kvs \<and> separator d = sep \<and> is_int (sep # rest) = Inr False"
  have "\<not> 0 < find_str sep (sep # rest)" by simp
  then show "set_path d (Some (sep # rest)) v
        = (Inr (), d\<lparr>content := PDict (AList.update (sep # rest) v kvs)\<rparr>)"
    using h by (simp add: set_path_def recursive_set_terminal)
next
  assume h: "content d = PDict kvs \<and> separator d = sep \<and> is_int (sep # rest) = Inr True"
  have "\<not> 0 < find_str sep (sep # rest)" by simp
  then have "recursive_set sep (sep # rest) v (PDict kvs) = (Inl ValueError, PDict kvs)"
    using h by (simp add: recursive_set_terminal)
  moreover have "d\<lparr>content := PDict kvs\<rparr> = d" using h by auto
  ultimately show "set_path d (Some (sep # rest)) v = (Inl ValueError, d)"
    using h by (simp add: set_path_def)
next
  assume "\<not> is_digit sep \<and> sep \<noteq> CHR ''-'' \<and> sep \<noteq> CHR ''+''"
  then show "is_int (sep # rest) = Inr False"
    by (simp add: is_int_not_index_char)
qed

theorem leading_separator_is_one_key_witness:
  "get \<lparr>content = PDict [(''.a.b'', PInt 1)], separator = CHR ''.''\<rparr> ''.a.b'' PNone = Inr (PInt 1)
   \<and> get_parent \<lparr>content = PDict [(''.a.b'', PInt 1)], separator = CHR ''.''\<rparr> ''.a.b''
       = Inr (PDict [(''.a.b'', PInt 1)])
   \<and> key_exists \<lparr>content = PDict [(''.a.b'', PInt 1)], separator = CHR ''.''\<rparr> ''.a.b'' = Inr True
   \<and> set_path \<lparr>content = PDict [(''.a.b'', PInt 1)], separator = CHR ''.''\<rparr> (Some ''.a.b'') (PInt 2)
       = (Inr (), \<lparr>content = PDict [(''.a.b'', PInt 2)], separator = CHR ''.''\<rparr>)
   \<and> set_path \<lparr>content = PDict [], separator = CHR ''+''\<rparr> (Some ''+7'') (PInt 2)
       = (Inl ValueError, \<lparr>content = PDict [], separator = CHR ''+''\<rparr>)
   \<and> is_int ''.a.b'' = Inr False"
proof -
  let ?d = "\<lparr>content = PDict [(''.a.b'', PInt 1)], separator = CHR ''.''\<rparr>"
  let ?e = "\<lparr>content = PDict [], separator = CHR ''+''\<rparr>"
  have h1: "content ?d = PDict [(''.a.b'', PInt 1)] \<and> separator ?d = CHR ''.''" by simp
  have h2: "\<not> is_digit CHR ''.'' \<and> CHR ''.'' \<noteq> CHR ''-'' \<and> CHR ''.'' \<noteq> CHR ''+''"
    by (simp add: is_digit_def)
  have h3: "content ?e = PDict [] \<and> separator ?e = CHR ''+'' \<and> is_int ''+7'' = Inr True"
    by (simp add: is_int_def isdecimal_def is_digit_def)
  note t1 = leading_separator_is_one_key [where d = ?d and kvs = "[(''.a.b'', PInt 1)]"
      and sep = "CHR ''.''" and rest = "''a.b''" and default_value = PNone and v = "PInt 2"]
  note t2 = leading_separator_is_one_key [where d = ?e and kvs = "[]"
      and sep = "CHR ''+''" and rest = "''7''" and v = "PInt 2"]
  from t1 h1 h2 have a: "is_int ''.a.b'' = Inr False" by blast
  from t1 h1 a have
    "get ?d ''.a.b'' PNone = Inr (case map_of [(''.a.b'', PInt 1)] ''.a.b'' of None \<Rightarrow> PNone | Some x \<Rightarrow> x)"
    "get_parent ?d ''.a.b'' = Inr (PDict [(''.a.b'', PInt 1)])"
    "key_exists ?d ''.a.b'' = Inr (''.a.b'' \<in> fst ` set [(''.a.b'', PInt 1)])"
    "set_path ?d (Some ''.a.b'') (PInt 2)
       = (Inr (), ?d\<lparr>content := PDict (AList.update ''.a.b'' (PInt 2) [(''.a.b'', PInt 1)])\<rparr>)"
    by blast+
  moreover from t2 h3 have "set_path ?e (Some ''+7'') (PInt 2) = (Inl ValueError, ?e)"
    by blast
  ultimately show ?thesis using a by simp
qed

end
